theory Spec2Isabelle
  imports Main
begin

section \<open>JavaScript strings and numbers\<close>

text \<open>
  A JavaScript string is a sequence of UTF-16 code units and \<open>length\<close> counts code
  units; the model takes \<^typ>\<open>string\<close>, the code units below 256. Sizes, thresholds,
  indices and line numbers are natural numbers.
\<close>

definition newline :: char where
  "newline = CHR 0x0A"

text \<open>\<open>s.split("\n")\<close>: the pieces between the separators; the empty string has one
  (empty) piece.\<close>

fun split_on :: "char \<Rightarrow> string \<Rightarrow> string list" where
  "split_on sep [] = [[]]"
| "split_on sep (c # cs) =
     (if c = sep then [] # split_on sep cs
      else (case split_on sep cs of
              [] \<Rightarrow> [[c]]
            | l # ls \<Rightarrow> (c # l) # ls))"

text \<open>\<open>xs.join(sep)\<close>.\<close>

fun join :: "string \<Rightarrow> string list \<Rightarrow> string" where
  "join sep [] = []"
| "join sep [x] = x"
| "join sep (x # y # ys) = x @ sep @ join sep (y # ys)"

text \<open>White space and line terminators of ECMAScript (the code units below 256), as
  \<open>trim\<close>, \<open>trimStart\<close> and \<open>parseInt\<close> skip them.\<close>

definition isWhiteSpace :: "char \<Rightarrow> bool" where
  "isWhiteSpace c =
     (c = CHR 0x09 \<or> c = CHR 0x0A \<or> c = CHR 0x0B \<or> c = CHR 0x0C \<or> c = CHR 0x0D \<or>
      c = CHR 0x20 \<or> c = CHR 0xA0)"

definition trimStart :: "string \<Rightarrow> string" where
  "trimStart s = dropWhile isWhiteSpace s"



definition startsWith :: "string \<Rightarrow> string \<Rightarrow> bool" where
  "startsWith s p = (take (length p) s = p)"

text \<open>\<open>String(n)\<close> for a chunk index \<open>n\<close>: its decimal digits (as JavaScript prints
  every integer below \<open>10^21\<close>).\<close>

definition digit_char :: "nat \<Rightarrow> char" where
  "digit_char d = char_of (48 + d)"

fun numberToString :: "nat \<Rightarrow> string" where
  "numberToString n =
     (if n < 10 then [digit_char n]
      else numberToString (n div 10) @ [digit_char (n mod 10)])"

declare numberToString.simps [simp del]


text \<open>\<open>parseInt(s, 10)\<close>: leading white space is skipped, one sign is read, then the
  longest run of decimal digits; no digit at all is \<open>NaN\<close>, here \<open>None\<close>.\<close>

definition isDigit :: "char \<Rightarrow> bool" where
  "isDigit c = (48 \<le> (of_char c :: nat) \<and> (of_char c :: nat) \<le> 57)"

definition digit_val :: "char \<Rightarrow> nat" where
  "digit_val c = of_char c - 48"

definition digits_val :: "string \<Rightarrow> nat" where
  "digits_val z = foldl (\<lambda>a c. 10 * a + digit_val c) 0 z"


section \<open>Chunking of line-delimited transcripts\<close>

text \<open>The exceptions of the chunkers. \<open>LineExceeds n size limit\<close> is the \<open>Error\<close> of
  \<open>chunkJSONL\<close>, whose message names the 1-based line number, the size of the line with
  its newline, and the limit. \<open>SyntaxError\<close> is the failure of \<open>JSON.parse\<close> and
  \<open>TypeError\<close> that of iterating a value that is not iterable.\<close>

datatype js_error = LineExceeds nat nat nat | SyntaxError | TypeError

text \<open>\<open>chunk.replace(/\n$/, "")\<close>: one newline at the very end is removed.\<close>

definition stripTrailingNewline :: "string \<Rightarrow> string" where
  "stripTrailingNewline s = (if s \<noteq> [] \<and> last s = newline then butlast s else s)"

text \<open>The loop of \<open>chunkJSONL\<close> over the lines from index \<open>i\<close> on, with the chunks
  sealed so far and the chunk being filled.\<close>

fun chunkJSONL_loop ::
  "nat \<Rightarrow> nat \<Rightarrow> string list \<Rightarrow> string list \<Rightarrow> string \<Rightarrow> js_error + string list" where
  "chunkJSONL_loop maxSize i [] chunks currentChunk =
     Inr (if length currentChunk > 0 then chunks @ [stripTrailingNewline currentChunk]
          else chunks)"
| "chunkJSONL_loop maxSize i (line # rest) chunks currentChunk =
     (let lineWithNewline = line @ [newline] in
      if length lineWithNewline > maxSize
      then Inl (LineExceeds (i + 1) (length lineWithNewline) maxSize)
      else if length currentChunk + length lineWithNewline > maxSize \<and> length currentChunk > 0
      then chunkJSONL_loop maxSize (i + 1) rest
             (chunks @ [stripTrailingNewline currentChunk]) lineWithNewline
      else chunkJSONL_loop maxSize (i + 1) rest chunks (currentChunk @ lineWithNewline))"

definition chunkJSONL :: "string \<Rightarrow> nat \<Rightarrow> js_error + string list" where
  "chunkJSONL content maxSize =
     (if content = [] then Inr []
      else chunkJSONL_loop maxSize 0 (split_on newline content) [] [])"

definition reassembleJSONL :: "string list \<Rightarrow> string" where
  "reassembleJSONL chunks = join [newline] chunks"

section \<open>Chunk file names\<close>




section \<open>JSON values and the JSON functions of the runtime\<close>

text \<open>
  The values \<open>JSON.parse\<close> returns. Numbers are the integers. An object is the list of
  its members in order, and a member is looked up by its key.

  \<open>JSON.parse\<close> and \<open>JSON.stringify\<close> are functions of the JavaScript runtime, not of
  this repository: every function that calls them takes them as the parameters
  \<open>parse\<close> (\<open>None\<close> when \<open>JSON.parse\<close> throws its \<open>SyntaxError\<close>) and \<open>stringify\<close>.
\<close>

datatype json =
    JNull
  | JBool bool
  | JNumber int
  | JString string
  | JArray "json list"
  | JObject "(string \<times> json) list"

text \<open>\<open>v.key\<close> for a key that no prototype defines: \<open>undefined\<close> (\<open>None\<close>) on a value
  that is not an object, a \<open>TypeError\<close> on \<open>null\<close>.\<close>

fun member :: "string \<Rightarrow> json \<Rightarrow> js_error + json option" where
  "member key (JObject kvs) = Inr (map_of kvs key)"
| "member key JNull = Inl TypeError"
| "member key v = Inr None"

text \<open>\<open>for (const msg of v)\<close> and \<open>...v\<close>: an array gives its elements, a string its
  characters, and nothing else read from JSON is iterable.\<close>

fun iterate :: "json option \<Rightarrow> js_error + json list" where
  "iterate (Some (JArray xs)) = Inr xs"
| "iterate (Some (JString s)) = Inr (map (\<lambda>c. JString [c]) s)"
| "iterate v = Inl TypeError"

text \<open>The object \<open>{ messages: ms }\<close>.\<close>

definition messagesObject :: "json list \<Rightarrow> json" where
  "messagesObject ms = JObject [(''messages'', JArray ms)]"

section \<open>Format detection\<close>

datatype AgentType = ClaudeCode | GeminiCLI

text \<open>The result \<open>undefined\<close> is \<open>None\<close>. Whatever the \<open>try\<close> block throws is caught
  and the function falls through to \<open>return undefined\<close>.\<close>

definition detectAgentTypeFromContent :: "(string \<Rightarrow> json option) \<Rightarrow> string \<Rightarrow> AgentType option" where
  "detectAgentTypeFromContent parse content =
     (let trimmed = trimStart content in
      if \<not> startsWith trimmed ''{'' then None
      else (case parse trimmed of
              None \<Rightarrow> None
            | Some parsed \<Rightarrow>
                (case member ''messages'' parsed of
                   Inl e \<Rightarrow> None
                 | Inr (Some (JArray ms)) \<Rightarrow> if length ms > 0 then Some GeminiCLI else None
                 | Inr other \<Rightarrow> None)))"

section \<open>Chunking of message-array transcripts\<close>

text \<open>The text \<open>{"messages":[]}\<close>, whose length starts every size count.\<close>

definition emptyWrapper :: string where
  "emptyWrapper = ''{'' @ [CHR 0x22] @ ''messages'' @ [CHR 0x22] @ '':[]}''"

text \<open>The variables of the loop of \<open>chunkGeminiJSON\<close>: the chunks sealed so far, the
  messages of the chunk being filled and their counted size.\<close>

record chunk_state =
  cs_chunks :: "string list"
  cs_currentMessages :: "json list"
  cs_currentSize :: nat

text \<open>One round of the loop, for the message \<open>msg\<close>.\<close>

definition chunkGeminiJSON_step ::
  "(json \<Rightarrow> string) \<Rightarrow> nat \<Rightarrow> chunk_state \<Rightarrow> json \<Rightarrow> chunk_state" where
  "chunkGeminiJSON_step stringify maxSize st msg =
     (let msgStr = stringify msg;
          addedSize = length msgStr + (if length (cs_currentMessages st) > 0 then 1 else 0);
          st' = (if cs_currentSize st + addedSize > maxSize \<and> length (cs_currentMessages st) > 0
                 then \<lparr>cs_chunks = cs_chunks st @ [stringify (messagesObject (cs_currentMessages st))],
                       cs_currentMessages = [],
                       cs_currentSize = length emptyWrapper\<rparr>
                 else st)
      in \<lparr>cs_chunks = cs_chunks st',
          cs_currentMessages = cs_currentMessages st' @ [msg],
          cs_currentSize = cs_currentSize st' + addedSize\<rparr>)"

text \<open>The loop over all messages, and the last chunk pushed after it.\<close>

definition chunkGeminiJSON_loop :: "(json \<Rightarrow> string) \<Rightarrow> nat \<Rightarrow> json list \<Rightarrow> string list" where
  "chunkGeminiJSON_loop stringify maxSize messages =
     (let st = foldl (chunkGeminiJSON_step stringify maxSize)
                 \<lparr>cs_chunks = [], cs_currentMessages = [], cs_currentSize = length emptyWrapper\<rparr>
                 messages
      in if length (cs_currentMessages st) > 0
         then cs_chunks st @ [stringify (messagesObject (cs_currentMessages st))]
         else cs_chunks st)"

definition chunkGeminiJSON ::
  "(string \<Rightarrow> json option) \<Rightarrow> (json \<Rightarrow> string) \<Rightarrow> string \<Rightarrow> nat \<Rightarrow> js_error + string list" where
  "chunkGeminiJSON parse stringify content maxSize =
     (if length content \<le> maxSize then Inr [content]
      else (case parse content of
              None \<Rightarrow> Inl SyntaxError
            | Some parsed \<Rightarrow>
                (case member ''messages'' parsed of
                   Inl e \<Rightarrow> Inl e
                 | Inr messages \<Rightarrow>
                     (case iterate messages of
                        Inl e \<Rightarrow> Inl e
                      | Inr msgs \<Rightarrow>
                          Inr (chunkGeminiJSON_loop stringify maxSize msgs)))))"



section \<open>Chunking with format detection\<close>

definition chunkTranscript ::
  "(string \<Rightarrow> json option) \<Rightarrow> (json \<Rightarrow> string) \<Rightarrow> string \<Rightarrow> AgentType option \<Rightarrow> nat \<Rightarrow>
     js_error + string list" where
  "chunkTranscript parse stringify content agentType maxSize =
     (if length content \<le> maxSize then Inr [content]
      else (let detectedType =
                  (case agentType of
                     Some t \<Rightarrow> Some t
                   | None \<Rightarrow> detectAgentTypeFromContent parse content)
            in if detectedType = Some GeminiCLI
               then chunkGeminiJSON parse stringify content maxSize
               else chunkJSONL content maxSize))"

section \<open>Parsing line-delimited transcripts\<close>





section \<open>Transcript lines of the line-delimited format\<close>

text \<open>
  The interfaces the extraction functions cast a line to, with the fields they read. A
  field that may be absent is an option. \<open>message\<close> is \<open>None\<close> when it is \<open>null\<close> or
  absent; the content of a message is a string or an array of blocks, and the content of
  a tool result is a string or an array of text parts (\<open>None\<close>: neither).
\<close>

record MessageUsage =
  input_tokens :: int
  cache_creation_input_tokens :: int
  cache_read_input_tokens :: int
  output_tokens :: int

record TextPart =
  part_type :: string
  part_text :: "string option"

datatype BlockContent = BlockString string | BlockArray "TextPart list"

record ContentBlock =
  block_type :: string
  block_text :: "string option"
  block_name :: "string option"
  tool_use_id :: "string option"
  block_content :: "BlockContent option"

datatype MessageContent = ContentString string | ContentBlocks "ContentBlock list"

record Message =
  msg_id :: "string option"
  msg_usage :: "MessageUsage option"
  msg_content :: "MessageContent option"

record TranscriptLine =
  line_type :: string
  uuid :: string
  message :: "Message option"

section \<open>Token usage\<close>

datatype TokenUsage =
  TokenUsage
    (inputTokens: int)
    (cacheCreationTokens: int)
    (cacheReadTokens: int)
    (outputTokens: int)
    (apiCallCount: nat)
    (subagentTokens: "TokenUsage option")

definition emptyTokenUsage :: TokenUsage where
  "emptyTokenUsage = TokenUsage 0 0 0 0 0 None"

text \<open>The assignments \<open>usage.apiCallCount = n\<close> and \<open>usage.subagentTokens = sub\<close>.\<close>

definition set_apiCallCount :: "nat \<Rightarrow> TokenUsage \<Rightarrow> TokenUsage" where
  "set_apiCallCount n usage =
     TokenUsage (inputTokens usage) (cacheCreationTokens usage) (cacheReadTokens usage)
       (outputTokens usage) n (subagentTokens usage)"


text \<open>A \<open>Map\<close> keeps its keys in insertion order: the list of its entries. \<open>set\<close> on a
  key already there replaces the value in place.\<close>

fun map_set :: "'k \<Rightarrow> 'v \<Rightarrow> ('k \<times> 'v) list \<Rightarrow> ('k \<times> 'v) list" where
  "map_set k v [] = [(k, v)]"
| "map_set k v (e # es) = (if fst e = k then (k, v) # es else e # map_set k v es)"

text \<open>One round of the first loop of the Claude \<open>calculateTokenUsage\<close>, for one line.\<close>

definition usage_step ::
  "(string \<times> MessageUsage) list \<Rightarrow> TranscriptLine \<Rightarrow> (string \<times> MessageUsage) list" where
  "usage_step usageByMessageId line =
     (if line_type line \<noteq> ''assistant'' then usageByMessageId
      else (case message line of
              None \<Rightarrow> usageByMessageId
            | Some msg \<Rightarrow>
                (case msg_id msg of
                   None \<Rightarrow> usageByMessageId
                 | Some i \<Rightarrow>
                     if i = [] then usageByMessageId
                     else (case msg_usage msg of
                             None \<Rightarrow> usageByMessageId
                           | Some u \<Rightarrow>
                               (case map_of usageByMessageId i of
                                  None \<Rightarrow> map_set i u usageByMessageId
                                | Some existing \<Rightarrow>
                                    if output_tokens u > output_tokens existing
                                    then map_set i u usageByMessageId
                                    else usageByMessageId)))))"

definition usageByMessageId_of :: "TranscriptLine list \<Rightarrow> (string \<times> MessageUsage) list" where
  "usageByMessageId_of transcript = foldl usage_step [] transcript"

text \<open>One round of the second loop, for one retained row.\<close>

definition addMessageUsage :: "TokenUsage \<Rightarrow> MessageUsage \<Rightarrow> TokenUsage" where
  "addMessageUsage usage u =
     TokenUsage (inputTokens usage + input_tokens u)
       (cacheCreationTokens usage + cache_creation_input_tokens u)
       (cacheReadTokens usage + cache_read_input_tokens u)
       (outputTokens usage + output_tokens u)
       (apiCallCount usage)
       (subagentTokens usage)"

definition claude_calculateTokenUsage :: "TranscriptLine list \<Rightarrow> TokenUsage" where
  "claude_calculateTokenUsage transcript =
     (let usageByMessageId = usageByMessageId_of transcript;
          usage = set_apiCallCount (length usageByMessageId) emptyTokenUsage
      in foldl addMessageUsage usage (map snd usageByMessageId))"

section \<open>Spawned agents and their token usage\<close>










section \<open>Token usage of message-array transcripts\<close>

record GeminiToolCall =
  call_id :: string
  call_name :: string
  call_args :: "(string \<times> json) list"
  call_status :: "string option"

text \<open>The fields \<open>input\<close>, \<open>output\<close>, \<open>cached\<close>, \<open>thoughts\<close>, \<open>tool\<close> and \<open>total\<close> of a token
  payload.\<close>

record GeminiMessageTokens =
  tok_input :: int
  tok_output :: int
  tok_cached :: int
  tok_thoughts :: int
  tok_tool :: int
  tok_total :: int

record GeminiMessage =
  gm_id :: "string option"
  gm_type :: string
  gm_content :: string
  toolCalls :: "GeminiToolCall list option"
  tokens :: "GeminiMessageTokens option"

record GeminiTranscript =
  messages :: "GeminiMessage list"







section \<open>The aggregation rule, as the specification words it\<close>

text \<open>The usage row a line contributes: an assistant line that carries both a message id
  (not empty) and a usage payload contributes the pair of them.\<close>

definition usage_row :: "TranscriptLine \<Rightarrow> (string \<times> MessageUsage) option" where
  "usage_row line =
     (if line_type line = ''assistant''
      then (case message line of
              None \<Rightarrow> None
            | Some msg \<Rightarrow>
                (case msg_id msg of
                   None \<Rightarrow> None
                 | Some i \<Rightarrow>
                     (case msg_usage msg of
                        None \<Rightarrow> None
                      | Some u \<Rightarrow> if i \<noteq> [] then Some (i, u) else None)))
      else None)"

definition usage_rows :: "TranscriptLine list \<Rightarrow> (string \<times> MessageUsage) list" where
  "usage_rows transcript = List.map_filter usage_row transcript"

text \<open>The rows of one id, in order.\<close>

definition rows_of :: "string \<Rightarrow> (string \<times> MessageUsage) list \<Rightarrow> MessageUsage list" where
  "rows_of i rows = map snd (filter (\<lambda>r. fst r = i) rows)"

text \<open>Row \<open>k\<close> of the rows \<open>us\<close> of one id is the one to keep: its output-token value is the
  maximum, and every earlier row has strictly less (ties keep the first seen).\<close>

definition kept_row :: "MessageUsage list \<Rightarrow> nat \<Rightarrow> bool" where
  "kept_row us k \<longleftrightarrow>
     k < length us \<and>
     (\<forall>u \<in> set us. output_tokens u \<le> output_tokens (us ! k)) \<and>
     (\<forall>u \<in> set (take k us). output_tokens u < output_tokens (us ! k))"

text \<open>The helper of the tests: an assistant line with a message id and a usage payload.\<close>

definition assistantWithUsage :: "string \<Rightarrow> string \<Rightarrow> MessageUsage \<Rightarrow> TranscriptLine" where
  "assistantWithUsage u i usage =
     \<lparr>line_type = ''assistant'', uuid = u,
      message = Some \<lparr>msg_id = Some i, msg_usage = Some usage, msg_content = None\<rparr>\<rparr>"

text \<open>The update of the map by one usage row: what one round of the loop does with the
  row its line contributes.\<close>

definition row_step ::
  "(string \<times> MessageUsage) list \<Rightarrow> string \<times> MessageUsage \<Rightarrow> (string \<times> MessageUsage) list" where
  "row_step m r =
     (case map_of m (fst r) of
        None \<Rightarrow> map_set (fst r) (snd r) m
      | Some existing \<Rightarrow>
          if output_tokens (snd r) > output_tokens existing then map_set (fst r) (snd r) m else m)"

text \<open>What holds of the map after the rows \<open>rows\<close> have been read: one entry per id, and
  the entry of an id holds the row to keep of the rows of that id.\<close>

definition rows_inv :: "(string \<times> MessageUsage) list \<Rightarrow> (string \<times> MessageUsage) list \<Rightarrow> bool" where
  "rows_inv rows m \<longleftrightarrow>
     distinct (map fst m) \<and> set (map fst m) = set (map fst rows) \<and>
     (\<forall>e \<in> set m. \<exists>k. kept_row (rows_of (fst e) rows) k \<and> snd e = rows_of (fst e) rows ! k)"

section \<open>A JSON codec\<close>

text \<open>
  An instance of the runtime's \<open>JSON.stringify\<close> and \<open>JSON.parse\<close> on which the functions
  above can be run: \<open>json_stringify\<close> writes the compact text of a value, as
  \<open>JSON.stringify\<close> does (in strings, the quote and the backslash are escaped), and
  \<open>json_parse\<close> reads compact texts, by recursive descent with the length of the text as
  fuel.
\<close>

definition dquote :: char where
  "dquote = CHR 0x22"

definition backslash :: char where
  "backslash = CHR 0x5C"

fun escape_string :: "string \<Rightarrow> string" where
  "escape_string [] = []"
| "escape_string (c # cs) =
     (if c = dquote \<or> c = backslash then [backslash, c] else [c]) @ escape_string cs"

definition quote_string :: "string \<Rightarrow> string" where
  "quote_string s = dquote # escape_string s @ [dquote]"

definition stringify_int :: "int \<Rightarrow> string" where
  "stringify_int n = (if n < 0 then ''-'' @ numberToString (nat (- n)) else numberToString (nat n))"

fun json_stringify :: "json \<Rightarrow> string" where
  "json_stringify JNull = ''null''"
| "json_stringify (JBool b) = (if b then ''true'' else ''false'')"
| "json_stringify (JNumber n) = stringify_int n"
| "json_stringify (JString s) = quote_string s"
| "json_stringify (JArray vs) = ''['' @ join '','' (map json_stringify vs) @ '']''"
| "json_stringify (JObject kvs) =
     ''{'' @ join '','' (map (\<lambda>kv. quote_string (fst kv) @ '':'' @ json_stringify (snd kv)) kvs) @ ''}''"

fun parse_string_body :: "string \<Rightarrow> (string \<times> string) option" where
  "parse_string_body [] = None"
| "parse_string_body (c # cs) =
     (if c = dquote then Some ([], cs)
      else if c = backslash then
        (case cs of
           [] \<Rightarrow> None
         | d # ds \<Rightarrow>
             if d = dquote \<or> d = backslash
             then (case parse_string_body ds of
                     None \<Rightarrow> None
                   | Some (s, r) \<Rightarrow> Some (d # s, r))
             else None)
      else (case parse_string_body cs of
              None \<Rightarrow> None
            | Some (s, r) \<Rightarrow> Some (c # s, r)))"

definition parse_number :: "string \<Rightarrow> (json \<times> string) option" where
  "parse_number s =
     (let neg = (s \<noteq> [] \<and> hd s = CHR ''-'');
          u = (if neg then tl s else s);
          z = takeWhile isDigit u
      in if z = [] then None
         else Some (JNumber ((if neg then - 1 else 1) * int (digits_val z)), dropWhile isDigit u))"

fun parse_value :: "nat \<Rightarrow> string \<Rightarrow> (json \<times> string) option"
  and parse_elements :: "nat \<Rightarrow> string \<Rightarrow> (json list \<times> string) option"
  and parse_members :: "nat \<Rightarrow> string \<Rightarrow> ((string \<times> json) list \<times> string) option" where
  "parse_value 0 s = None"
| "parse_value (Suc n) s =
     (if startsWith s ''null'' then Some (JNull, drop 4 s)
      else if startsWith s ''true'' then Some (JBool True, drop 4 s)
      else if startsWith s ''false'' then Some (JBool False, drop 5 s)
      else if startsWith s [dquote] then
        (case parse_string_body (tl s) of
           None \<Rightarrow> None
         | Some (str, r) \<Rightarrow> Some (JString str, r))
      else if startsWith s ''[]'' then Some (JArray [], drop 2 s)
      else if startsWith s ''['' then
        (case parse_elements n (tl s) of
           None \<Rightarrow> None
         | Some (vs, r) \<Rightarrow> Some (JArray vs, r))
      else if startsWith s ''{}'' then Some (JObject [], drop 2 s)
      else if startsWith s ''{'' then
        (case parse_members n (tl s) of
           None \<Rightarrow> None
         | Some (kvs, r) \<Rightarrow> Some (JObject kvs, r))
      else parse_number s)"
| "parse_elements 0 s = None"
| "parse_elements (Suc n) s =
     (case parse_value n s of
        None \<Rightarrow> None
      | Some (v, r) \<Rightarrow>
          if startsWith r '','' then
            (case parse_elements n (tl r) of
               None \<Rightarrow> None
             | Some (vs, r') \<Rightarrow> Some (v # vs, r'))
          else if startsWith r '']'' then Some ([v], tl r)
          else None)"
| "parse_members 0 s = None"
| "parse_members (Suc n) s =
     (if startsWith s [dquote] then
        (case parse_string_body (tl s) of
           None \<Rightarrow> None
         | Some (k, r) \<Rightarrow>
             if startsWith r '':'' then
               (case parse_value n (tl r) of
                  None \<Rightarrow> None
                | Some (v, r') \<Rightarrow>
                    if startsWith r' '','' then
                      (case parse_members n (tl r') of
                         None \<Rightarrow> None
                       | Some (kvs, r'') \<Rightarrow> Some ((k, v) # kvs, r''))
                    else if startsWith r' ''}'' then Some ([(k, v)], tl r')
                    else None)
             else None)
      else None)"

definition json_parse :: "string \<Rightarrow> json option" where
  "json_parse s =
     (case parse_value (length s) s of
        Some (v, []) \<Rightarrow> Some v
      | _ \<Rightarrow> None)"




section \<open>The messages of a message-array document\<close>



section \<open>Line counting and subagent loading, as the claims word them\<close>




section \<open>Reading a transcript line from JSON\<close>










section \<open>Properties of the string functions\<close>

lemma split_on_not_Nil: "split_on sep s \<noteq> []"
  by (induction s) (auto split: list.splits)

lemma join_Cons: "ys \<noteq> [] \<Longrightarrow> join sep (x # ys) = x @ sep @ join sep ys"
  by (cases ys) simp_all

lemma join_split_on: "join [sep] (split_on sep s) = s"
proof (induction s)
  case Nil
  show ?case by simp
next
  case (Cons c cs)
  show ?case
  proof (cases "c = sep")
    case True
    with Cons show ?thesis by (simp add: join_Cons split_on_not_Nil)
  next
    case False
    obtain l ls where sp: "split_on sep cs = l # ls"
      using split_on_not_Nil [of sep cs] by (cases "split_on sep cs") auto
    with Cons False show ?thesis by (cases ls) simp_all
  qed
qed

section \<open>Properties of the line-delimited chunker\<close>

lemma strip_append_newline:
  "cur \<noteq> [] \<Longrightarrow> last cur = newline \<Longrightarrow> stripTrailingNewline cur @ [newline] = cur"
  using append_butlast_last_id [of cur] by (simp add: stripTrailingNewline_def)

lemma strip_snoc_newline: "stripTrailingNewline (s @ [newline]) = s"
  by (simp add: stripTrailingNewline_def)

lemma join_snoc_concat:
  "xs \<noteq> [] \<Longrightarrow> join [sep] xs @ [sep] = concat (map (\<lambda>x. x @ [sep]) xs)"
proof (induction xs)
  case Nil
  then show ?case by simp
next
  case (Cons x xs)
  then show ?case by (cases xs) simp_all
qed

lemma chunkJSONL_loop_flat:
  "chunkJSONL_loop m i ls chunks cur = Inr out \<Longrightarrow> cur = [] \<or> last cur = newline \<Longrightarrow>
   concat (map (\<lambda>c. c @ [newline]) out) =
     concat (map (\<lambda>c. c @ [newline]) chunks) @ cur @ concat (map (\<lambda>l. l @ [newline]) ls)"
proof (induction ls arbitrary: i chunks cur)
  case Nil
  then show ?case by (auto simp: strip_append_newline)
next
  case (Cons l ls)
  then show ?case
    by (auto simp: Let_def strip_append_newline split: if_splits)
qed

lemma chunkJSONL_loop_error_iff:
  "(\<exists>e. chunkJSONL_loop m i ls chunks cur = Inl e) \<longleftrightarrow> (\<exists>l \<in> set ls. m < length l + 1)"
  by (induction ls arbitrary: i chunks cur) (auto simp: Let_def)

lemma chunkJSONL_loop_error_line:
  "chunkJSONL_loop m i ls chunks cur = Inl e \<Longrightarrow>
   \<exists>k < length ls. e = LineExceeds (i + k + 1) (length (ls ! k) + 1) m \<and>
      m < length (ls ! k) + 1 \<and> (\<forall>j < k. length (ls ! j) + 1 \<le> m)"
proof (induction ls arbitrary: i chunks cur)
  case Nil
  then show ?case by simp
next
  case (Cons l ls)
  show ?case
  proof (cases "m < length l + 1")
    case True
    with Cons.prems have "e = LineExceeds (i + 1) (length l + 1) m" by (simp add: Let_def)
    with True show ?thesis by (intro exI [of _ 0]) simp
  next
    case False
    with Cons.prems obtain chunks' cur' where
      "chunkJSONL_loop m (i + 1) ls chunks' cur' = Inl e"
      by (auto simp: Let_def split: if_splits)
    from Cons.IH [OF this] obtain k where k: "k < length ls"
      "e = LineExceeds (i + 1 + k + 1) (length (ls ! k) + 1) m"
      "m < length (ls ! k) + 1" "\<forall>j < k. length (ls ! j) + 1 \<le> m" by blast
    have "\<forall>j < Suc k. length ((l # ls) ! j) + 1 \<le> m"
      using False k(4) by (auto simp: nth_Cons split: nat.splits)
    with k show ?thesis by (intro exI [of _ "Suc k"]) simp
  qed
qed

lemma chunkJSONL_loop_fits:
  "length cur + length (concat (map (\<lambda>l. l @ [newline]) ls)) \<le> m \<Longrightarrow>
   cur \<noteq> [] \<or> ls \<noteq> [] \<Longrightarrow>
   chunkJSONL_loop m i ls chunks cur =
     Inr (chunks @ [stripTrailingNewline (cur @ concat (map (\<lambda>l. l @ [newline]) ls))])"
proof (induction ls arbitrary: i cur)
  case Nil
  then show ?case by simp
next
  case (Cons l ls)
  then show ?case by (simp add: Let_def)
qed

section \<open>Properties of the file-name functions\<close>

lemma of_char_digit_char: "d < 10 \<Longrightarrow> (of_char (digit_char d) :: nat) = 48 + d"
  by (simp add: digit_char_def)

lemma isDigit_digit_char: "d < 10 \<Longrightarrow> isDigit (digit_char d)"
  by (simp add: isDigit_def of_char_digit_char)







lemma numberToString_digits: "\<forall>c \<in> set (numberToString n). isDigit c"
proof (induction n rule: numberToString.induct)
  case (1 n)
  show ?case
  proof (cases "n < 10")
    case True
    then show ?thesis by (subst numberToString.simps) (simp add: isDigit_digit_char)
  next
    case False
    with 1 show ?thesis
      by (subst numberToString.simps) (simp add: isDigit_digit_char)
  qed
qed


lemma numberToString_not_Nil: "numberToString n \<noteq> []"
  by (subst numberToString.simps) simp






section \<open>What the line-delimited chunker returns\<close>

lemma chunkJSONL_returned_roundtrip:
  assumes "chunkJSONL content maxSize = Inr out"
  shows "reassembleJSONL out = content"
proof (cases "content = []")
  case True
  with assms show ?thesis by (simp add: chunkJSONL_def reassembleJSONL_def)
next
  case False
  let ?ls = "split_on newline content"
  have ls: "?ls \<noteq> []" by (rule split_on_not_Nil)
  from assms False have "chunkJSONL_loop maxSize 0 ?ls [] [] = Inr out"
    by (simp add: chunkJSONL_def)
  from chunkJSONL_loop_flat [OF this]
  have flat: "concat (map (\<lambda>c. c @ [newline]) out) = concat (map (\<lambda>l. l @ [newline]) ?ls)"
    by simp
  have "concat (map (\<lambda>l. l @ [newline]) ?ls) \<noteq> []"
    using ls by (cases ?ls) simp_all
  with flat have out: "out \<noteq> []" by auto
  have "join [newline] out @ [newline] = join [newline] ?ls @ [newline]"
    using flat by (simp add: join_snoc_concat [OF out] join_snoc_concat [OF ls])
  then show ?thesis by (simp add: reassembleJSONL_def join_split_on)
qed

lemma chunkJSONL_fits_returns:
  assumes "\<forall>l \<in> set (split_on newline content). length l + 1 \<le> maxSize"
  shows "\<exists>out. chunkJSONL content maxSize = Inr out"
proof (cases "content = []")
  case True
  then show ?thesis by (simp add: chunkJSONL_def)
next
  case False
  from assms have "\<not> (\<exists>e. chunkJSONL_loop maxSize 0 (split_on newline content) [] [] = Inl e)"
    unfolding chunkJSONL_loop_error_iff by (auto simp: not_less)
  then obtain out where "chunkJSONL_loop maxSize 0 (split_on newline content) [] [] = Inr out"
    by (cases "chunkJSONL_loop maxSize 0 (split_on newline content) [] []") auto
  with False show ?thesis by (simp add: chunkJSONL_def)
qed


section \<open>The claims about chunking line-delimited transcripts\<close>

text \<open>
  Claim C1, as amended. Whenever every line of the content, with its separating newline,
  fits the threshold (the threshold is at least one more than the length of the longest
  line), \<open>chunkJSONL\<close> returns chunks and \<open>reassembleJSONL\<close> of them is the content,
  character for character.
\<close>

theorem chunkJSONL_roundtrip:
  assumes "\<forall>l \<in> set (split_on newline content). length l + 1 \<le> maxSize"
  shows "\<exists>out. chunkJSONL content maxSize = Inr out \<and> reassembleJSONL out = content"
  using chunkJSONL_fits_returns [OF assms] chunkJSONL_returned_roundtrip by blast

theorem chunkJSONL_roundtrip_witness:
  "chunkJSONL ''ab\<newline>cd\<newline>ef'' 4 = Inr [''ab'', ''cd'', ''ef''] \<and>
   reassembleJSONL [''ab'', ''cd'', ''ef''] = ''ab\<newline>cd\<newline>ef''"
proof -
  have c: "chunkJSONL ''ab\<newline>cd\<newline>ef'' 4 = Inr [''ab'', ''cd'', ''ef'']"
    by code_simp
  from chunkJSONL_roundtrip [of "''ab\<newline>cd\<newline>ef''" 4] c show ?thesis
    by (simp add: newline_def)
qed

text \<open>
  Claim C1 as stated fails when the threshold is exactly the length of the longest line:
  the content \<open>abc\<close> is one line of length 3, and with threshold 3 \<open>chunkJSONL\<close> throws
  (line 1, size 4 with its newline, limit 3), so there are no chunks to reassemble.
\<close>

theorem chunkJSONL_roundtrip_counterexample:
  "split_on newline ''abc'' = [''abc''] \<and> length ''abc'' \<le> (3::nat) \<and>
   chunkJSONL ''abc'' 3 = Inl (LineExceeds 1 4 3)"
  by (simp add: chunkJSONL_def newline_def)

text \<open>
  Claim C5. \<open>chunkJSONL\<close> throws exactly when the content is not empty and some line
  with its separating newline is longer than the threshold (the empty content has no
  line: it is returned as no chunk before any line is looked at). The error then carries
  the 1-based number of the first such line, its size with the newline, and the
  threshold, and no chunk is returned. When every line with its newline fits, chunks are
  returned; and returned chunks are never truncated: they reassemble to the content.
\<close>

theorem chunkJSONL_throws_exactly:
  "((\<exists>e. chunkJSONL content maxSize = Inl e) \<longleftrightarrow>
      (content \<noteq> [] \<and> (\<exists>l \<in> set (split_on newline content). maxSize < length l + 1)))
   \<and> (\<forall>e. chunkJSONL content maxSize = Inl e \<longrightarrow>
        (\<exists>k < length (split_on newline content).
           e = LineExceeds (k + 1) (length (split_on newline content ! k) + 1) maxSize \<and>
           maxSize < length (split_on newline content ! k) + 1 \<and>
           (\<forall>j < k. length (split_on newline content ! j) + 1 \<le> maxSize)))
   \<and> ((\<forall>l \<in> set (split_on newline content). length l + 1 \<le> maxSize) \<longrightarrow>
        (\<exists>out. chunkJSONL content maxSize = Inr out))
   \<and> (\<forall>out. chunkJSONL content maxSize = Inr out \<longrightarrow> reassembleJSONL out = content)"
proof (intro conjI allI impI)
  show "(\<exists>e. chunkJSONL content maxSize = Inl e) \<longleftrightarrow>
      (content \<noteq> [] \<and> (\<exists>l \<in> set (split_on newline content). maxSize < length l + 1))"
    using chunkJSONL_loop_error_iff [of maxSize 0 "split_on newline content" "[]" "[]"]
    by (simp add: chunkJSONL_def)
next
  fix e
  assume "chunkJSONL content maxSize = Inl e"
  then have "chunkJSONL_loop maxSize 0 (split_on newline content) [] [] = Inl e"
    by (simp add: chunkJSONL_def split: if_splits)
  from chunkJSONL_loop_error_line [OF this]
  show "\<exists>k < length (split_on newline content).
           e = LineExceeds (k + 1) (length (split_on newline content ! k) + 1) maxSize \<and>
           maxSize < length (split_on newline content ! k) + 1 \<and>
           (\<forall>j < k. length (split_on newline content ! j) + 1 \<le> maxSize)"
    by simp
next
  assume "\<forall>l \<in> set (split_on newline content). length l + 1 \<le> maxSize"
  then show "\<exists>out. chunkJSONL content maxSize = Inr out" by (rule chunkJSONL_fits_returns)
next
  fix out
  assume "chunkJSONL content maxSize = Inr out"
  then show "reassembleJSONL out = content" by (rule chunkJSONL_returned_roundtrip)
qed

theorem chunkJSONL_throws_exactly_witness:
  "chunkJSONL ''ab\<newline>cdef\<newline>g'' 4 = Inl (LineExceeds 2 5 4) \<and>
   split_on newline ''ab\<newline>cdef\<newline>g'' ! 1 = ''cdef'' \<and>
   (\<exists>out. chunkJSONL ''ab\<newline>cd'' 4 = Inr out \<and> reassembleJSONL out = ''ab\<newline>cd'')"
  using chunkJSONL_throws_exactly [of "''ab\<newline>cdef\<newline>g''" 4]
    chunkJSONL_throws_exactly [of "''ab\<newline>cd''" 4]
  by (simp add: chunkJSONL_def newline_def)

section \<open>The claim about chunk file names\<close>



section \<open>Token usage of message-array transcripts: properties\<close>










section \<open>Token usage of line-delimited transcripts: properties\<close>

lemma map_of_map_set: "map_of (map_set k v m) = (map_of m)(k \<mapsto> v)"
  by (induction m) (auto simp: fun_eq_iff)

lemma keys_map_set:
  "map fst (map_set k v m) = (if k \<in> fst ` set m then map fst m else map fst m @ [k])"
  by (induction m) auto

lemma set_map_set:
  "distinct (map fst m) \<Longrightarrow> set (map_set k v m) = insert (k, v) {e \<in> set m. fst e \<noteq> k}"
  by (induction m) (auto simp: rev_image_eqI)

lemma usage_step_row:
  "usage_step m line = (case usage_row line of None \<Rightarrow> m | Some r \<Rightarrow> row_step m r)"
  by (simp add: usage_step_def usage_row_def row_step_def split: option.splits)

lemma foldl_usage_step:
  "foldl usage_step m transcript = foldl row_step m (usage_rows transcript)"
proof (induction transcript arbitrary: m)
  case Nil
  show ?case by (simp add: usage_rows_def)
next
  case (Cons line transcript)
  then show ?case
    by (cases "usage_row line") (simp_all add: usage_rows_def usage_step_row)
qed

lemma rows_of_snoc:
  "rows_of j (rows @ [r]) = rows_of j rows @ (if fst r = j then [snd r] else [])"
  by (simp add: rows_of_def)

lemma kept_row_single: "kept_row [u] 0"
  by (simp add: kept_row_def)

lemma kept_row_replace:
  assumes "kept_row us k" "output_tokens (us ! k) < output_tokens u"
  shows "kept_row (us @ [u]) (length us)"
  using assms by (fastforce simp: kept_row_def)

lemma kept_row_keep:
  assumes "kept_row us k" "\<not> output_tokens (us ! k) < output_tokens u"
  shows "kept_row (us @ [u]) k \<and> (us @ [u]) ! k = us ! k"
  using assms by (auto simp: kept_row_def nth_append)

lemma rows_of_absent: "i \<notin> set (map fst rows) \<Longrightarrow> rows_of i rows = []"
  by (induction rows) (auto simp: rows_of_def)

lemma rows_inv_step:
  assumes inv: "rows_inv rows m"
  shows "rows_inv (rows @ [r]) (row_step m r)"
proof -
  obtain i u where r: "r = (i, u)" by (cases r)
  from inv have dist: "distinct (map fst m)"
    and keys: "set (map fst m) = set (map fst rows)"
    and kept: "\<And>e. e \<in> set m \<Longrightarrow>
        \<exists>k. kept_row (rows_of (fst e) rows) k \<and> snd e = rows_of (fst e) rows ! k"
    by (auto simp: rows_inv_def)
  have other: "\<exists>k. kept_row (rows_of (fst e) (rows @ [r])) k \<and>
                  snd e = rows_of (fst e) (rows @ [r]) ! k"
    if "e \<in> set m" "fst e \<noteq> i" for e
    using kept [OF that(1)] that(2) by (simp add: rows_of_snoc r)
  show ?thesis
  proof (cases "map_of m i")
    case None
    then have notin: "i \<notin> fst ` set m" by (simp add: map_of_eq_None_iff)
    with keys have empty: "rows_of i rows = []" by (intro rows_of_absent) auto
    have step: "row_step m r = map_set i u m" using None by (simp add: row_step_def r)
    have "distinct (map fst (map_set i u m))"
      using dist notin by (simp add: keys_map_set)
    moreover have "set (map fst (map_set i u m)) = set (map fst (rows @ [r]))"
      using keys notin by (auto simp: keys_map_set r)
    moreover have "\<exists>k. kept_row (rows_of (fst e) (rows @ [r])) k \<and>
                  snd e = rows_of (fst e) (rows @ [r]) ! k"
      if "e \<in> set (map_set i u m)" for e
    proof (cases "e = (i, u)")
      case True
      then show ?thesis
        using empty by (intro exI [of _ 0]) (simp add: rows_of_snoc r kept_row_single)
    next
      case False
      with that have "e \<in> set m" "fst e \<noteq> i" by (auto simp: set_map_set [OF dist])
      then show ?thesis by (rule other)
    qed
    ultimately show ?thesis unfolding step rows_inv_def by blast
  next
    case (Some existing)
    then have mem: "(i, existing) \<in> set m" by (rule map_of_SomeD)
    from kept [OF mem] obtain k where
      k: "kept_row (rows_of i rows) k" "existing = rows_of i rows ! k" by auto
    have inkeys: "i \<in> fst ` set m" using mem by force
    show ?thesis
    proof (cases "output_tokens u > output_tokens existing")
      case True
      have step: "row_step m r = map_set i u m" using Some True by (simp add: row_step_def r)
      have "distinct (map fst (map_set i u m))"
        using dist inkeys by (simp add: keys_map_set)
      moreover have "set (map fst (map_set i u m)) = set (map fst (rows @ [r]))"
        using keys inkeys by (auto simp: keys_map_set r)
      moreover have "\<exists>k. kept_row (rows_of (fst e) (rows @ [r])) k \<and>
                    snd e = rows_of (fst e) (rows @ [r]) ! k"
        if "e \<in> set (map_set i u m)" for e
      proof (cases "e = (i, u)")
        case eq: True
        have "kept_row (rows_of i rows @ [u]) (length (rows_of i rows))"
          using k True by (intro kept_row_replace [of _ k]) simp_all
        then show ?thesis
          using eq by (intro exI [of _ "length (rows_of i rows)"]) (simp add: rows_of_snoc r)
      next
        case False
        with that have "e \<in> set m" "fst e \<noteq> i" by (auto simp: set_map_set [OF dist])
        then show ?thesis by (rule other)
      qed
      ultimately show ?thesis unfolding step rows_inv_def by blast
    next
      case False
      have step: "row_step m r = m" using Some False by (simp add: row_step_def r)
      have "set (map fst m) = set (map fst (rows @ [r]))"
        using keys inkeys by (auto simp: r)
      moreover have "\<exists>k. kept_row (rows_of (fst e) (rows @ [r])) k \<and>
                    snd e = rows_of (fst e) (rows @ [r]) ! k"
        if "e \<in> set m" for e
      proof (cases "fst e = i")
        case eq: True
        with that dist mem have e: "e = (i, existing)"
          by (metis Some map_of_is_SomeI option.inject prod.collapse)
        from kept_row_keep [of "rows_of i rows" k u] k False
        have "kept_row (rows_of i rows @ [u]) k \<and> (rows_of i rows @ [u]) ! k = existing"
          by simp
        then show ?thesis
          using e by (intro exI [of _ k]) (simp add: rows_of_snoc r)
      next
        case False
        with that show ?thesis by (intro other)
      qed
      ultimately show ?thesis unfolding step rows_inv_def using dist by blast
    qed
  qed
qed

lemma rows_inv_foldl: "rows_inv rows (foldl row_step [] rows)"
proof (induction rows rule: rev_induct)
  case Nil
  show ?case by (simp add: rows_inv_def)
next
  case (snoc r rows)
  then show ?case by (simp add: rows_inv_step)
qed

lemma usageByMessageId_inv: "rows_inv (usage_rows transcript) (usageByMessageId_of transcript)"
  by (simp add: usageByMessageId_of_def foldl_usage_step rows_inv_foldl)

lemma foldl_addMessageUsage:
  "foldl addMessageUsage usage us =
     TokenUsage (inputTokens usage + sum_list (map input_tokens us))
       (cacheCreationTokens usage + sum_list (map cache_creation_input_tokens us))
       (cacheReadTokens usage + sum_list (map cache_read_input_tokens us))
       (outputTokens usage + sum_list (map output_tokens us))
       (apiCallCount usage) (subagentTokens usage)"
  by (induction us arbitrary: usage) (simp_all add: addMessageUsage_def)

lemma claude_calculateTokenUsage_sums:
  "claude_calculateTokenUsage transcript =
     TokenUsage (sum_list (map input_tokens (map snd (usageByMessageId_of transcript))))
       (sum_list (map cache_creation_input_tokens (map snd (usageByMessageId_of transcript))))
       (sum_list (map cache_read_input_tokens (map snd (usageByMessageId_of transcript))))
       (sum_list (map output_tokens (map snd (usageByMessageId_of transcript))))
       (length (usageByMessageId_of transcript)) None"
  by (simp add: claude_calculateTokenUsage_def Let_def foldl_addMessageUsage
      set_apiCallCount_def emptyTokenUsage_def)

lemma retained_count:
  "length (usageByMessageId_of transcript) = card (fst ` set (usage_rows transcript))"
proof -
  from usageByMessageId_inv [of transcript]
  have d: "distinct (map fst (usageByMessageId_of transcript))"
    and s: "set (map fst (usageByMessageId_of transcript)) = set (map fst (usage_rows transcript))"
    by (auto simp: rows_inv_def)
  from distinct_card [OF d] s show ?thesis by simp
qed

text \<open>
  Claim C2. The map \<open>usageByMessageId\<close> that the Claude \<open>calculateTokenUsage\<close> builds has
  one entry for each message id among the assistant lines that carry both an id (not
  empty) and a usage payload, and the entry of an id is the row with the maximum
  \<open>output_tokens\<close> among the rows of that id, the first of them on a tie. The four token
  totals returned are the sums over these retained rows, \<open>apiCallCount\<close> is the number of
  distinct ids (the number of retained rows), and no \<open>subagentTokens\<close> is attached. Two
  rows that share one id with output-token counts 10 and 50 give \<open>apiCallCount = 1\<close> and
  \<open>outputTokens = 50\<close>.
\<close>

theorem claude_calculateTokenUsage_dedup:
  "distinct (map fst (usageByMessageId_of transcript))
   \<and> set (map fst (usageByMessageId_of transcript)) = set (map fst (usage_rows transcript))
   \<and> (\<forall>e \<in> set (usageByMessageId_of transcript).
         \<exists>k. kept_row (rows_of (fst e) (usage_rows transcript)) k \<and>
             snd e = rows_of (fst e) (usage_rows transcript) ! k)
   \<and> claude_calculateTokenUsage transcript =
       TokenUsage (sum_list (map input_tokens (map snd (usageByMessageId_of transcript))))
         (sum_list (map cache_creation_input_tokens (map snd (usageByMessageId_of transcript))))
         (sum_list (map cache_read_input_tokens (map snd (usageByMessageId_of transcript))))
         (sum_list (map output_tokens (map snd (usageByMessageId_of transcript))))
         (length (usageByMessageId_of transcript)) None
   \<and> length (usageByMessageId_of transcript) = card (fst ` set (usage_rows transcript))
   \<and> (i \<noteq> [] \<and> output_tokens u1 = 10 \<and> output_tokens u2 = 50 \<longrightarrow>
        apiCallCount (claude_calculateTokenUsage
                        [assistantWithUsage a i u1, assistantWithUsage b i u2]) = 1 \<and>
        outputTokens (claude_calculateTokenUsage
                        [assistantWithUsage a i u1, assistantWithUsage b i u2]) = 50)"
proof -
  have inv: "rows_inv (usage_rows transcript) (usageByMessageId_of transcript)"
    by (rule usageByMessageId_inv)
  have ex: "apiCallCount (claude_calculateTokenUsage
                        [assistantWithUsage a i u1, assistantWithUsage b i u2]) = 1 \<and>
        outputTokens (claude_calculateTokenUsage
                        [assistantWithUsage a i u1, assistantWithUsage b i u2]) = 50"
    if "i \<noteq> [] \<and> output_tokens u1 = 10 \<and> output_tokens u2 = 50"
    using that
    by (simp add: claude_calculateTokenUsage_sums usageByMessageId_of_def usage_step_def
        assistantWithUsage_def)
  from inv ex show ?thesis
    unfolding rows_inv_def
    using claude_calculateTokenUsage_sums [of transcript] retained_count [of transcript]
    by blast
qed

theorem claude_calculateTokenUsage_dedup_witness:
  "claude_calculateTokenUsage
     [assistantWithUsage ''a1'' ''msg1''
        \<lparr>input_tokens = 100, cache_creation_input_tokens = 0, cache_read_input_tokens = 0,
         output_tokens = 10\<rparr>,
      assistantWithUsage ''a1-dup'' ''msg1''
        \<lparr>input_tokens = 100, cache_creation_input_tokens = 0, cache_read_input_tokens = 0,
         output_tokens = 50\<rparr>]
   = TokenUsage 100 0 0 50 1 None
   \<and> usageByMessageId_of
     [assistantWithUsage ''a1'' ''msg1''
        \<lparr>input_tokens = 100, cache_creation_input_tokens = 0, cache_read_input_tokens = 0,
         output_tokens = 10\<rparr>,
      assistantWithUsage ''a1-dup'' ''msg1''
        \<lparr>input_tokens = 100, cache_creation_input_tokens = 0, cache_read_input_tokens = 0,
         output_tokens = 50\<rparr>]
   = [(''msg1'', \<lparr>input_tokens = 100, cache_creation_input_tokens = 0,
                  cache_read_input_tokens = 0, output_tokens = 50\<rparr>)]"
  (is "claude_calculateTokenUsage [assistantWithUsage _ _ ?u1, assistantWithUsage _ _ ?u2] = _ \<and> _")
proof -
  let ?t = "[assistantWithUsage ''a1'' ''msg1'' ?u1, assistantWithUsage ''a1-dup'' ''msg1'' ?u2]"
  have m: "usageByMessageId_of ?t = [(''msg1'', ?u2)]"
    by (simp add: usageByMessageId_of_def usage_step_def assistantWithUsage_def)
  have h: "''msg1'' \<noteq> [] \<and> output_tokens ?u1 = 10 \<and> output_tokens ?u2 = 50"
    by simp
  from h claude_calculateTokenUsage_dedup [of ?t "''msg1''" ?u1 ?u2 "''a1''" "''a1-dup''"]
  show ?thesis by (simp add: m)
qed

section \<open>The JSON codec reads back what it writes\<close>


lemma numberToString_Cons: "\<exists>c cs. numberToString k = c # cs \<and> isDigit c"
  using numberToString_not_Nil [of k] numberToString_digits [of k]
  by (cases "numberToString k") auto



lemma stringify_int_Cons: "\<exists>c cs. stringify_int n = c # cs \<and> (isDigit c \<or> c = CHR ''-'')"
  using numberToString_Cons [of "nat n"] by (auto simp: stringify_int_def)


lemma json_stringify_Cons:
  "\<exists>c cs. json_stringify v = c # cs \<and> c \<noteq> CHR '']'' \<and> c \<noteq> CHR ''}''"
proof (cases v)
  case (JNumber n)
  with stringify_int_Cons [of n] show ?thesis by (auto simp: isDigit_def)
qed (auto simp: quote_string_def dquote_def)









lemma json_stringify_not_Nil: "json_stringify v \<noteq> []"
  using json_stringify_Cons [of v] by auto


section \<open>Chunking of message-array transcripts and format detection: properties\<close>












lemma detect_exact:
  "detectAgentTypeFromContent parse content = Some GeminiCLI \<longleftrightarrow>
     startsWith (trimStart content) ''{'' \<and>
     (\<exists>parsed ms. parse (trimStart content) = Some parsed \<and>
        member ''messages'' parsed = Inr (Some (JArray ms)) \<and> ms \<noteq> [])"
  by (auto simp: detectAgentTypeFromContent_def Let_def
      split: option.splits sum.splits json.splits)

lemma detect_cases:
  "detectAgentTypeFromContent parse content = Some GeminiCLI \<or>
   detectAgentTypeFromContent parse content = None"
  by (auto simp: detectAgentTypeFromContent_def Let_def
      split: option.splits sum.splits json.splits)

lemma detect_no_brace:
  "\<not> startsWith (trimStart content) ''{'' \<Longrightarrow> detectAgentTypeFromContent parse content = None"
  by (simp add: detectAgentTypeFromContent_def)

lemma chunkJSONL_small:
  assumes "content \<noteq> []" "length content < maxSize"
  shows "chunkJSONL content maxSize = Inr [content]"
proof -
  let ?ls = "split_on newline content"
  have ls: "?ls \<noteq> []" by (rule split_on_not_Nil)
  have flat: "concat (map (\<lambda>l. l @ [newline]) ?ls) = content @ [newline]"
    using join_snoc_concat [OF ls, of newline] by (simp add: join_split_on)
  with assms(2) have "length [] + length (concat (map (\<lambda>l. l @ [newline]) ?ls)) \<le> maxSize"
    by simp
  from chunkJSONL_loop_fits [OF this, of 0 "[]"] ls flat assms(1) show ?thesis
    by (simp add: chunkJSONL_def strip_snoc_newline)
qed



text \<open>
  Claim C8. \<open>detectAgentTypeFromContent\<close> answers \<open>Gemini CLI\<close> exactly when the content,
  with its leading white space trimmed, starts with \<open>{\<close>, parses as JSON, and the parsed
  value has a \<open>messages\<close> field that is a non-empty array. In every other case the answer
  is \<open>undefined\<close>; in particular, when the first character after the white space is not
  \<open>{\<close> the answer is \<open>undefined\<close> whatever \<open>JSON.parse\<close> would do, and when \<open>JSON.parse\<close>
  throws the error is caught. The function always returns.
\<close>

theorem detectAgentTypeFromContent_exact:
  "(detectAgentTypeFromContent parse content = Some GeminiCLI \<longleftrightarrow>
      startsWith (trimStart content) ''{'' \<and>
      (\<exists>parsed ms. parse (trimStart content) = Some parsed \<and>
         member ''messages'' parsed = Inr (Some (JArray ms)) \<and> ms \<noteq> []))
   \<and> (detectAgentTypeFromContent parse content = Some GeminiCLI \<or>
        detectAgentTypeFromContent parse content = None)
   \<and> (\<not> startsWith (trimStart content) ''{'' \<longrightarrow>
        (\<forall>p. detectAgentTypeFromContent p content = None))
   \<and> (parse (trimStart content) = None \<longrightarrow>
        detectAgentTypeFromContent parse content = None)"
  using detect_exact [of parse content] detect_cases [of parse content] detect_no_brace [of content]
  by (auto simp: detectAgentTypeFromContent_def)

theorem detectAgentTypeFromContent_exact_witness:
  \<open>detectAgentTypeFromContent json_parse ''  {"messages":[{"id":"m1"}]}'' = Some GeminiCLI
   \<and> detectAgentTypeFromContent json_parse ''{"messages":[]}'' = None
   \<and> detectAgentTypeFromContent json_parse ''{"type":"user"}'' = None
   \<and> \<not> startsWith (trimStart ''not json'') ''{''
   \<and> detectAgentTypeFromContent json_parse ''not json'' = None
   \<and> json_parse (trimStart ''{"messages":'') = None
   \<and> detectAgentTypeFromContent json_parse ''{"messages":'' = None\<close>
proof -
  have a: \<open>detectAgentTypeFromContent json_parse ''  {"messages":[{"id":"m1"}]}'' = Some GeminiCLI\<close>
    by code_simp
  have b: \<open>detectAgentTypeFromContent json_parse ''{"messages":[]}'' = None\<close>
    by code_simp
  have c: \<open>detectAgentTypeFromContent json_parse ''{"type":"user"}'' = None\<close>
    by code_simp
  have d: \<open>\<not> startsWith (trimStart ''not json'') ''{''\<close>
    by code_simp
  have e: \<open>json_parse (trimStart ''{"messages":'') = None\<close>
    by code_simp
  from detectAgentTypeFromContent_exact [of json_parse "''not json''"]
    detectAgentTypeFromContent_exact [of json_parse \<open>''{"messages":''\<close>] a b c d e
  show ?thesis by simp
qed

text \<open>
  Claim C7, as amended. For every content string whose length is at or under the
  threshold, \<open>chunkTranscript\<close> (with or without a format hint) and \<open>chunkGeminiJSON\<close>
  return exactly one chunk, equal to the input. \<open>chunkJSONL\<close> returns exactly one chunk
  equal to the input for every non-empty content whose length is strictly under the
  threshold, and no chunk for the empty content.
\<close>

theorem chunk_small_content:
  "(length content \<le> maxSize \<longrightarrow>
      chunkTranscript parse stringify content agentType maxSize = Inr [content] \<and>
      chunkGeminiJSON parse stringify content maxSize = Inr [content])
   \<and> (content \<noteq> [] \<and> length content < maxSize \<longrightarrow> chunkJSONL content maxSize = Inr [content])
   \<and> chunkJSONL [] maxSize = Inr []"
  using chunkJSONL_small [of content maxSize]
  by (simp add: chunkTranscript_def chunkGeminiJSON_def chunkJSONL_def)

theorem chunk_small_content_witness:
  \<open>chunkTranscript json_parse json_stringify ''{"a":1}\<newline>{"b":2}'' None 15 =
     Inr [''{"a":1}\<newline>{"b":2}'']
   \<and> chunkGeminiJSON json_parse json_stringify ''{"messages":[1]}'' 16 = Inr [''{"messages":[1]}'']
   \<and> chunkJSONL ''{"a":1}\<newline>{"b":2}'' 16 = Inr [''{"a":1}\<newline>{"b":2}'']\<close>
  using chunk_small_content [of \<open>''{"a":1}\<newline>{"b":2}''\<close> 15 json_parse json_stringify None]
    chunk_small_content [of \<open>''{"messages":[1]}''\<close> 16 json_parse json_stringify None]
    chunk_small_content [of \<open>''{"a":1}\<newline>{"b":2}''\<close> 16 json_parse json_stringify None]
  by simp

text \<open>
  Claim C7 as stated fails for \<open>chunkJSONL\<close>: the empty content is at or under every
  threshold and gives no chunk at all; the content of two lines \<open>a\<close> and \<open>b\<close> has
  length 3 and with threshold 3 gives two chunks; and the content \<open>abc\<close> with threshold
  3 gives an error.
\<close>

theorem chunk_small_content_counterexample:
  "length ([] :: string) \<le> (5::nat) \<and> chunkJSONL [] 5 = Inr []
   \<and> length ''a\<newline>b'' \<le> (3::nat) \<and> chunkJSONL ''a\<newline>b'' 3 = Inr [''a'', ''b'']
   \<and> length ''abc'' \<le> (3::nat) \<and> chunkJSONL ''abc'' 3 = Inl (LineExceeds 1 4 3)"
  by code_simp

section \<open>Line offsets and subagent totals: properties\<close>

















end
